theory Spec2Isabelle
  imports Main
begin

section \<open>The LS-8 emulator of \<^verbatim>\<open>ls8/cpu.py\<close>\<close>

text \<open>
  The emulator is one Python class, \<^verbatim>\<open>CPU\<close>, holding three lists of Python integers:
  eight general registers, five internal registers and 256 memory cells. Python integers
  are unbounded, so every cell is an \<open>int\<close>; nothing in the class reduces a value to
  eight bits. A handler that raises leaves the object as it was at the \<^verbatim>\<open>raise\<close>, so a
  failing call yields the exception together with the state reached so far.
\<close>

subsection \<open>Opcodes and flag values\<close>

named_theorems opcode_defs

definition HLT :: int where [opcode_defs]: "HLT = 1"
definition LDI :: int where [opcode_defs]: "LDI = 130"
definition PRN :: int where [opcode_defs]: "PRN = 71"
definition NOP :: int where [opcode_defs]: "NOP = 0"
definition PUSH :: int where [opcode_defs]: "PUSH = 69"
definition POP :: int where [opcode_defs]: "POP = 70"
definition CALL :: int where [opcode_defs]: "CALL = 80"
definition RET :: int where [opcode_defs]: "RET = 17"
definition JMP :: int where [opcode_defs]: "JMP = 84"
definition JEQ :: int where [opcode_defs]: "JEQ = 85"
definition JNE :: int where [opcode_defs]: "JNE = 86"
definition MUL :: int where [opcode_defs]: "MUL = 162"
definition ADD :: int where [opcode_defs]: "ADD = 160"
definition CMP :: int where [opcode_defs]: "CMP = 167"

definition EQUAL :: int where [opcode_defs]: "EQUAL = 1"
definition LESSTHAN :: int where [opcode_defs]: "LESSTHAN = 4"
definition GREATERTHAN :: int where [opcode_defs]: "GREATERTHAN = 2"

subsection \<open>Python list subscripts\<close>

text \<open>
  The exceptions the class can raise: \<^verbatim>\<open>IndexError\<close> from a list subscript (its message
  names no index), \<^verbatim>\<open>KeyError\<close> from the dispatch dictionary (it carries the key), and the
  \<^verbatim>\<open>Exception("Unsupported ALU operation")\<close> of \<^verbatim>\<open>alu\<close>.
\<close>

datatype error = IndexError | KeyError int | UnsupportedALU

text \<open>
  A subscript \<open>i\<close> of a list of \<open>n\<close> items denotes position \<open>i\<close> when \<open>0 \<le> i < n\<close>,
  position \<open>n + i\<close> when \<open>- n \<le> i < 0\<close>, and raises otherwise.
\<close>

definition subscript :: "nat \<Rightarrow> int \<Rightarrow> nat option" where
  "subscript n i =
     (if 0 \<le> i \<and> i < int n then Some (nat i)
      else if i < 0 \<and> - int n \<le> i then Some (nat (int n + i))
      else None)"

definition getitem :: "int list \<Rightarrow> int \<Rightarrow> error + int" where
  "getitem xs i =
     (case subscript (length xs) i of
        None \<Rightarrow> Inl IndexError
      | Some k \<Rightarrow> Inr (xs ! k))"

definition setitem :: "int list \<Rightarrow> int \<Rightarrow> int \<Rightarrow> error + int list" where
  "setitem xs i v =
     (case subscript (length xs) i of
        None \<Rightarrow> Inl IndexError
      | Some k \<Rightarrow> Inr (xs[k := v]))"

subsection \<open>The machine state\<close>

text \<open>
  The three list attributes of \<^verbatim>\<open>CPU\<close>; \<open>stdout\<close> collects what \<^verbatim>\<open>print\<close> has written,
  one entry per printed value.
\<close>

record cpu =
  registers :: "int list"
  int_registers :: "int list"
  ram :: "int list"
  stdout :: "int list"

definition cpu_init :: cpu where
  "cpu_init =
     \<lparr>registers = (replicate 8 0)[7 := 244],
      int_registers = replicate 5 0,
      ram = replicate 256 0,
      stdout = []\<rparr>"

definition wf_cpu :: "cpu \<Rightarrow> bool" where
  "wf_cpu s \<longleftrightarrow>
     length (registers s) = 8 \<and> length (int_registers s) = 5 \<and> length (ram s) = 256"

text \<open>
  The properties \<^verbatim>\<open>pc\<close>, \<^verbatim>\<open>ir\<close>, \<^verbatim>\<open>fl\<close> and \<^verbatim>\<open>sp\<close> with their setters. The properties
  \<^verbatim>\<open>mar\<close> and \<^verbatim>\<open>mdr\<close> are used by no method (\<^verbatim>\<open>ram_read\<close> and \<^verbatim>\<open>ram_write\<close> take the
  address and the datum as arguments), and \<^verbatim>\<open>trace\<close> is never called; they are left out.
\<close>

definition pc :: "cpu \<Rightarrow> int" where
  "pc s = int_registers s ! 0"

definition pc_set :: "int \<Rightarrow> cpu \<Rightarrow> cpu" where
  "pc_set v s = s\<lparr>int_registers := (int_registers s)[0 := v]\<rparr>"

definition ir :: "cpu \<Rightarrow> int" where
  "ir s = int_registers s ! 1"

definition ir_set :: "int \<Rightarrow> cpu \<Rightarrow> cpu" where
  "ir_set v s = s\<lparr>int_registers := (int_registers s)[1 := v]\<rparr>"

definition fl :: "cpu \<Rightarrow> int" where
  "fl s = int_registers s ! 4"

definition fl_set :: "int \<Rightarrow> cpu \<Rightarrow> cpu" where
  "fl_set v s = s\<lparr>int_registers := (int_registers s)[4 := v]\<rparr>"

definition sp :: "cpu \<Rightarrow> int" where
  "sp s = registers s ! 7"

definition sp_set :: "int \<Rightarrow> cpu \<Rightarrow> cpu" where
  "sp_set v s = s\<lparr>registers := (registers s)[7 := v]\<rparr>"

subsection \<open>Memory\<close>

type_synonym outcome = "(error \<times> cpu) + cpu"

definition ram_read :: "cpu \<Rightarrow> int \<Rightarrow> error + int" where
  "ram_read s mar = getitem (ram s) mar"

definition ram_write :: "cpu \<Rightarrow> int \<Rightarrow> int \<Rightarrow> outcome" where
  "ram_write s mdr mar =
     (case setitem (ram s) mar mdr of
        Inl e \<Rightarrow> Inl (e, s)
      | Inr m \<Rightarrow> Inr (s\<lparr>ram := m\<rparr>))"

fun load_from :: "cpu \<Rightarrow> int \<Rightarrow> int list \<Rightarrow> outcome" where
  "load_from s address [] = Inr s"
| "load_from s address (instruction # program) =
     (case setitem (ram s) address instruction of
        Inl e \<Rightarrow> Inl (e, s)
      | Inr m \<Rightarrow> load_from (s\<lparr>ram := m\<rparr>) (address + 1) program)"

definition load :: "cpu \<Rightarrow> int list \<Rightarrow> outcome" where
  "load s program = load_from s 0 program"

subsection \<open>Instruction handlers\<close>

text \<open>Every handler takes the opcode and both operand bytes, as \<^verbatim>\<open>run\<close> passes them.\<close>

type_synonym handler = "cpu \<Rightarrow> int \<Rightarrow> int \<Rightarrow> int \<Rightarrow> outcome"

definition ldi :: handler where
  "ldi s op op_a op_b =
     (case setitem (registers s) op_a op_b of
        Inl e \<Rightarrow> Inl (e, s)
      | Inr rs \<Rightarrow>
          (let s1 = s\<lparr>registers := rs\<rparr>
           in Inr (pc_set (pc s1 + 3) s1)))"

definition prn :: handler where
  "prn s op op_a op_b =
     (case getitem (registers s) op_a of
        Inl e \<Rightarrow> Inl (e, s)
      | Inr v \<Rightarrow>
          (let s1 = s\<lparr>stdout := stdout s @ [v]\<rparr>
           in Inr (pc_set (pc s1 + 2) s1)))"

definition nop :: handler where
  "nop s op op_a op_b = Inr (pc_set (pc s + 1) s)"

definition push :: handler where
  "push s op op_a op_b =
     (let s1 = sp_set (sp s - 1) s
      in case getitem (registers s1) op_a of
           Inl e \<Rightarrow> Inl (e, s1)
         | Inr v \<Rightarrow>
             (case ram_write s1 v (sp s1) of
                Inl x \<Rightarrow> Inl x
              | Inr s2 \<Rightarrow> Inr (pc_set (pc s2 + 2) s2)))"

definition pop :: handler where
  "pop s op op_a op_b =
     (case ram_read s (sp s) of
        Inl e \<Rightarrow> Inl (e, s)
      | Inr v \<Rightarrow>
          (case setitem (registers s) op_a v of
             Inl e \<Rightarrow> Inl (e, s)
           | Inr rs \<Rightarrow>
               (let s1 = s\<lparr>registers := rs\<rparr>;
                    s2 = sp_set (sp s1 + 1) s1
                in Inr (pc_set (pc s2 + 2) s2))))"

definition call :: handler where
  "call s op op_a op_b =
     (let s1 = sp_set (sp s - 1) s
      in case ram_write s1 (pc s1 + 2) (sp s1) of
           Inl x \<Rightarrow> Inl x
         | Inr s2 \<Rightarrow>
             (case getitem (registers s2) op_a of
                Inl e \<Rightarrow> Inl (e, s2)
              | Inr v \<Rightarrow> Inr (pc_set v s2)))"

definition ret :: handler where
  "ret s op op_a op_b =
     (case ram_read s (sp s) of
        Inl e \<Rightarrow> Inl (e, s)
      | Inr v \<Rightarrow>
          (let s1 = pc_set v s
           in Inr (sp_set (sp s1 + 1) s1)))"

definition jmp :: handler where
  "jmp s op op_a op_b =
     (case getitem (registers s) op_a of
        Inl e \<Rightarrow> Inl (e, s)
      | Inr v \<Rightarrow> Inr (pc_set v s))"

definition jeq :: handler where
  "jeq s op op_a op_b =
     (if fl s = EQUAL then
        (case getitem (registers s) op_a of
           Inl e \<Rightarrow> Inl (e, s)
         | Inr v \<Rightarrow> Inr (pc_set v s))
      else Inr (pc_set (pc s + 2) s))"

definition jne :: handler where
  "jne s op op_a op_b =
     (if fl s \<noteq> EQUAL then
        (case getitem (registers s) op_a of
           Inl e \<Rightarrow> Inl (e, s)
         | Inr v \<Rightarrow> Inr (pc_set v s))
      else Inr (pc_set (pc s + 2) s))"

subsection \<open>Arithmetic logic unit\<close>

text \<open>
  \<^verbatim>\<open>self.registers[reg_a] += self.registers[reg_b]\<close> reads item \<open>reg_a\<close>, then item
  \<open>reg_b\<close>, then stores the result at \<open>reg_a\<close>; \<open>binop\<close> is that pattern for \<open>+=\<close> and
  \<open>*=\<close>.
\<close>

definition binop :: "(int \<Rightarrow> int \<Rightarrow> int) \<Rightarrow> cpu \<Rightarrow> int \<Rightarrow> int \<Rightarrow> outcome" where
  "binop f s reg_a reg_b =
     (case getitem (registers s) reg_a of
        Inl e \<Rightarrow> Inl (e, s)
      | Inr x \<Rightarrow>
          (case getitem (registers s) reg_b of
             Inl e \<Rightarrow> Inl (e, s)
           | Inr y \<Rightarrow>
               (case setitem (registers s) reg_a (f x y) of
                  Inl e \<Rightarrow> Inl (e, s)
                | Inr rs \<Rightarrow>
                    (let s1 = s\<lparr>registers := rs\<rparr>
                     in Inr (pc_set (pc s1 + 3) s1)))))"

definition compare :: "cpu \<Rightarrow> int \<Rightarrow> int \<Rightarrow> outcome" where
  "compare s reg_a reg_b =
     (case getitem (registers s) reg_a of
        Inl e \<Rightarrow> Inl (e, s)
      | Inr x \<Rightarrow>
          (case getitem (registers s) reg_b of
             Inl e \<Rightarrow> Inl (e, s)
           | Inr y \<Rightarrow>
               (let s1 = (if x = y then fl_set EQUAL s
                          else if x < y then fl_set LESSTHAN s
                          else if x > y then fl_set GREATERTHAN s
                          else s)
                in Inr (pc_set (pc s1 + 3) s1))))"

definition alu :: handler where
  "alu s op reg_a reg_b =
     (if op = ADD then binop (+) s reg_a reg_b
      else if op = MUL then binop (*) s reg_a reg_b
      else if op = CMP then compare s reg_a reg_b
      else Inl (UnsupportedALU, s))"

subsection \<open>Dispatch and the fetch-execute loop\<close>

text \<open>The dictionary filled by \<^verbatim>\<open>__init__\<close>, in the order of its assignments.\<close>

definition dispatch :: "int \<rightharpoonup> handler" where
  "dispatch =
     Map.empty(NOP \<mapsto> nop, LDI \<mapsto> ldi, PRN \<mapsto> prn, MUL \<mapsto> alu, ADD \<mapsto> alu,
       PUSH \<mapsto> push, POP \<mapsto> pop, CALL \<mapsto> call, RET \<mapsto> ret, ADD \<mapsto> alu,
       CMP \<mapsto> alu, JMP \<mapsto> jmp, JEQ \<mapsto> jeq, JNE \<mapsto> jne)"

text \<open>
  One turn of the \<^verbatim>\<open>while\<close> loop of \<^verbatim>\<open>run\<close>: the opcode goes to \<open>ir\<close>, both operand
  cells are read whatever the opcode, \<open>HLT\<close> leaves the loop, and any other opcode is
  looked up in the dictionary and called.
\<close>

datatype cycle_result = Continue cpu | Halt cpu | Raise error cpu

definition cycle :: "cpu \<Rightarrow> cycle_result" where
  "cycle s =
     (case ram_read s (pc s) of
        Inl e \<Rightarrow> Raise e s
      | Inr i \<Rightarrow>
          (let s1 = ir_set i s
           in case ram_read s1 (pc s1 + 1) of
                Inl e \<Rightarrow> Raise e s1
              | Inr operand_a \<Rightarrow>
                  (case ram_read s1 (pc s1 + 2) of
                     Inl e \<Rightarrow> Raise e s1
                   | Inr operand_b \<Rightarrow>
                       if ir s1 = HLT then Halt s1
                       else
                         (case dispatch (ir s1) of
                            None \<Rightarrow> Raise (KeyError (ir s1)) s1
                          | Some h \<Rightarrow>
                              (case h s1 (ir s1) operand_a operand_b of
                                 Inl (e, s2) \<Rightarrow> Raise e s2
                               | Inr s2 \<Rightarrow> Continue s2)))))"

text \<open>
  The loop has no instruction limit and may never leave: \<open>run s = None\<close> is the run that
  goes on forever, \<open>Some (Inr t)\<close> the run halted in \<open>t\<close>, \<open>Some (Inl (e, t))\<close> the run
  ended by the exception \<open>e\<close> with the machine left in \<open>t\<close>.
\<close>

partial_function (option) run :: "cpu \<Rightarrow> outcome option" where
  "run s =
     (case cycle s of
        Continue s1 \<Rightarrow> run s1
      | Halt s1 \<Rightarrow> Some (Inr s1)
      | Raise e s1 \<Rightarrow> Some (Inl (e, s1)))"

declare run.simps [code]

text \<open>The state the object is left in, whether the call returned or raised.\<close>

definition final :: "outcome \<Rightarrow> cpu" where
  "final r = (case r of Inl (e, s) \<Rightarrow> s | Inr s \<Rightarrow> s)"

text \<open>Handler calls in sequence, stopping at the first that raises.\<close>

fun calls :: "cpu \<Rightarrow> (handler \<times> int \<times> int \<times> int) list \<Rightarrow> outcome" where
  "calls s [] = Inr s"
| "calls s ((h, op, a, b) # rest) =
     (case h s op a b of
        Inl x \<Rightarrow> Inl x
      | Inr s1 \<Rightarrow> calls s1 rest)"

text \<open>
  \<open>cycles n s\<close> is the state after \<open>n\<close> turns of the loop from \<open>s\<close>, when each of them
  returns to the loop head; \<open>cycles_before opc n s\<close> is the same with no turn fetching the
  opcode \<open>opc\<close>.
\<close>

fun cycles :: "nat \<Rightarrow> cpu \<Rightarrow> cpu option" where
  "cycles 0 s = Some s"
| "cycles (Suc n) s =
     (case cycle s of
        Continue s1 \<Rightarrow> cycles n s1
      | Halt s1 \<Rightarrow> None
      | Raise e s1 \<Rightarrow> None)"

fun cycles_before :: "int \<Rightarrow> nat \<Rightarrow> cpu \<Rightarrow> cpu option" where
  "cycles_before opc 0 s = Some s"
| "cycles_before opc (Suc n) s =
     (if ram_read s (pc s) = Inr opc then None
      else
        (case cycle s of
           Continue s1 \<Rightarrow> cycles_before opc n s1
         | Halt s1 \<Rightarrow> None
         | Raise e s1 \<Rightarrow> None))"

section \<open>Properties\<close>

subsection \<open>Subscripts\<close>

lemma subscript_in_range: "0 \<le> i \<Longrightarrow> i < int n \<Longrightarrow> subscript n i = Some (nat i)"
  by (simp add: subscript_def)

lemma subscript_negative: "i < 0 \<Longrightarrow> - int n \<le> i \<Longrightarrow> subscript n i = Some (nat (int n + i))"
  by (simp add: subscript_def)

lemma subscript_outside: "int n \<le> i \<or> i < - int n \<Longrightarrow> subscript n i = None"
  by (auto simp add: subscript_def)

lemma subscript_less: "subscript n i = Some k \<Longrightarrow> k < n"
  by (auto simp add: subscript_def split: if_splits)

lemma getitem_in_range: "0 \<le> i \<Longrightarrow> i < int (length xs) \<Longrightarrow> getitem xs i = Inr (xs ! nat i)"
  by (simp add: getitem_def subscript_in_range)

lemma getitem_negative:
  "i < 0 \<Longrightarrow> - int (length xs) \<le> i \<Longrightarrow> getitem xs i = Inr (xs ! nat (int (length xs) + i))"
  by (simp add: getitem_def subscript_negative)

lemma getitem_outside:
  "int (length xs) \<le> i \<or> i < - int (length xs) \<Longrightarrow> getitem xs i = Inl IndexError"
  by (simp add: getitem_def subscript_outside)

lemma setitem_in_range:
  "0 \<le> i \<Longrightarrow> i < int (length xs) \<Longrightarrow> setitem xs i v = Inr (xs[nat i := v])"
  by (simp add: setitem_def subscript_in_range)

lemma setitem_negative:
  "i < 0 \<Longrightarrow> - int (length xs) \<le> i \<Longrightarrow>
   setitem xs i v = Inr (xs[nat (int (length xs) + i) := v])"
  by (simp add: setitem_def subscript_negative)

lemma setitem_outside:
  "int (length xs) \<le> i \<or> i < - int (length xs) \<Longrightarrow> setitem xs i v = Inl IndexError"
  by (simp add: setitem_def subscript_outside)

lemma getitem_error: "getitem xs i = Inl e \<Longrightarrow> e = IndexError"
  by (simp add: getitem_def split: option.splits)

lemma setitem_error: "setitem xs i v = Inl e \<Longrightarrow> e = IndexError"
  by (simp add: setitem_def split: option.splits)

lemma setitem_length: "setitem xs i v = Inr ys \<Longrightarrow> length ys = length xs"
  by (auto simp add: setitem_def split: option.splits)

subsection \<open>Accessors\<close>

lemma wf_cpu_init: "wf_cpu cpu_init"
  by (simp add: wf_cpu_def cpu_init_def)

lemma pc_pc_set: "wf_cpu s \<Longrightarrow> pc (pc_set v s) = v"
  by (simp add: wf_cpu_def pc_def pc_set_def)

lemma fl_fl_set: "wf_cpu s \<Longrightarrow> fl (fl_set v s) = v"
  by (simp add: wf_cpu_def fl_def fl_set_def)

lemma ir_ir_set: "wf_cpu s \<Longrightarrow> ir (ir_set v s) = v"
  by (simp add: wf_cpu_def ir_def ir_set_def)

lemma sp_sp_set: "wf_cpu s \<Longrightarrow> sp (sp_set v s) = v"
  by (simp add: wf_cpu_def sp_def sp_set_def)

lemma fl_unchanged [simp]:
  "fl (pc_set v s) = fl s" "fl (ir_set v s) = fl s" "fl (sp_set v s) = fl s"
  "fl (s\<lparr>registers := rs\<rparr>) = fl s" "fl (s\<lparr>ram := m\<rparr>) = fl s" "fl (s\<lparr>stdout := out\<rparr>) = fl s"
  by (simp_all add: fl_def pc_set_def ir_set_def sp_set_def)

lemma pc_unchanged [simp]:
  "pc (fl_set v s) = pc s" "pc (ir_set v s) = pc s" "pc (sp_set v s) = pc s"
  "pc (s\<lparr>registers := rs\<rparr>) = pc s" "pc (s\<lparr>ram := m\<rparr>) = pc s" "pc (s\<lparr>stdout := out\<rparr>) = pc s"
  by (simp_all add: pc_def fl_set_def ir_set_def sp_set_def)

lemma wf_cpu_updates [simp]:
  "wf_cpu (pc_set v s) = wf_cpu s" "wf_cpu (ir_set v s) = wf_cpu s"
  "wf_cpu (fl_set v s) = wf_cpu s" "wf_cpu (sp_set v s) = wf_cpu s"
  "wf_cpu (s\<lparr>stdout := out\<rparr>) = wf_cpu s"
  by (simp_all add: wf_cpu_def pc_set_def ir_set_def fl_set_def sp_set_def)

lemma final_simps [simp]: "final (Inr s) = s" "final (Inl (e, s)) = s"
  by (simp_all add: final_def)

subsection \<open>Addition and multiplication\<close>

lemma binop_in_range:
  assumes "wf_cpu s" "0 \<le> a" "a < 8" "0 \<le> b" "b < 8"
  shows "binop f s a b =
     Inr (pc_set (pc s + 3)
       (s\<lparr>registers := (registers s)[nat a := f (registers s ! nat a) (registers s ! nat b)]\<rparr>))"
  using assms by (simp add: binop_def wf_cpu_def getitem_in_range setitem_in_range)

lemma compare_in_range:
  assumes "wf_cpu s" "0 \<le> a" "a < 8" "0 \<le> b" "b < 8"
  shows "compare s a b =
     Inr (pc_set (pc s + 3)
       (fl_set (if registers s ! nat a = registers s ! nat b then EQUAL
                else if registers s ! nat a < registers s ! nat b then LESSTHAN
                else GREATERTHAN) s))"
  using assms by (simp add: compare_def wf_cpu_def getitem_in_range)

text \<open>
  Claim C1, as the code has it. For register indices \<open>a\<close>, \<open>b\<close> in \<open>0..7\<close>, \<open>ADD\<close> stores
  the exact integer sum of the two registers in register \<open>a\<close> and \<open>MUL\<close> the exact
  product, and both advance the program counter by 3. Nothing reduces the result modulo
  256: the stored value equals the sum (product) modulo 256 exactly when the sum (product)
  already lies in \<open>0..255\<close>.
\<close>

theorem alu_add_mul_exact:
  assumes "wf_cpu s" "0 \<le> a" "a < 8" "0 \<le> b" "b < 8"
  shows "let x = registers s ! nat a; y = registers s ! nat b in
     alu s ADD a b = Inr (pc_set (pc s + 3) (s\<lparr>registers := (registers s)[nat a := x + y]\<rparr>)) \<and>
     alu s MUL a b = Inr (pc_set (pc s + 3) (s\<lparr>registers := (registers s)[nat a := x * y]\<rparr>)) \<and>
     registers (final (alu s ADD a b)) ! nat a = x + y \<and>
     registers (final (alu s MUL a b)) ! nat a = x * y \<and>
     (registers (final (alu s ADD a b)) ! nat a = (x + y) mod 256 \<longleftrightarrow> 0 \<le> x + y \<and> x + y < 256) \<and>
     (registers (final (alu s MUL a b)) ! nat a = (x * y) mod 256 \<longleftrightarrow> 0 \<le> x * y \<and> x * y < 256)"
proof -
  have len: "nat a < length (registers s)"
    using assms by (simp add: wf_cpu_def)
  have add: "alu s ADD a b = binop (+) s a b" and mul: "alu s MUL a b = binop (*) s a b"
    by (simp_all add: alu_def opcode_defs)
  have range: "(z = z mod 256) = (0 \<le> z \<and> z < 256)" for z :: int
    by (metis mod_pos_pos_trivial pos_mod_bound pos_mod_sign zero_less_numeral)
  show ?thesis
    using len
    by (simp add: Let_def add mul binop_in_range [OF assms] final_def pc_set_def range)
qed

theorem alu_add_mul_exact_witness:
  "alu cpu_init ADD 7 7 =
     Inr (pc_set (pc cpu_init + 3) (cpu_init\<lparr>registers := (registers cpu_init)[7 := 488]\<rparr>)) \<and>
   alu cpu_init MUL 7 7 =
     Inr (pc_set (pc cpu_init + 3) (cpu_init\<lparr>registers := (registers cpu_init)[7 := 59536]\<rparr>))"
proof -
  have r7: "registers cpu_init ! 7 = 244"
    by (simp add: cpu_init_def)
  show ?thesis
    using alu_add_mul_exact [of cpu_init 7 7] by (simp add: wf_cpu_init Let_def r7)
qed

text \<open>
  \<^verbatim>\<open>LDI r0 250; LDI r1 10; ADD r0 r1\<close> on a fresh machine leaves 260 in register 0, not 4.
\<close>

theorem add_wraps_counterexample:
  "calls cpu_init [(ldi, LDI, 0, 250), (ldi, LDI, 1, 10), (alu, ADD, 0, 1)] =
     Inr \<lparr>registers = [260, 10, 0, 0, 0, 0, 0, 244], int_registers = [9, 0, 0, 0, 0],
          ram = replicate 256 0, stdout = []\<rparr> \<and>
   (260 :: int) \<noteq> (250 + 10) mod 256"
  by (simp add: cpu_init_def ldi_def alu_def binop_def setitem_def getitem_def subscript_def
      pc_def pc_set_def opcode_defs eval_nat_numeral)

subsection \<open>Comparison\<close>

text \<open>
  Claim C5. For register indices \<open>a\<close>, \<open>b\<close> in \<open>0..7\<close>, \<open>CMP\<close> returns normally and leaves in
  the flags register \<open>EQUAL\<close> when the two registers are equal, \<open>LESSTHAN\<close> when the first
  is smaller and \<open>GREATERTHAN\<close> when it is larger: the new flag is a function of the
  comparison alone, whatever the flags register held before. The program counter advances
  by 3; registers and memory are as before.
\<close>

theorem cmp_sets_one_flag:
  assumes "wf_cpu s" "0 \<le> a" "a < 8" "0 \<le> b" "b < 8"
  shows "let x = registers s ! nat a; y = registers s ! nat b; s' = final (alu s CMP a b) in
     alu s CMP a b = Inr s' \<and>
     fl s' = (if x = y then EQUAL else if x < y then LESSTHAN else GREATERTHAN) \<and>
     (fl s' = EQUAL \<longleftrightarrow> x = y) \<and>
     (fl s' = LESSTHAN \<longleftrightarrow> x < y) \<and>
     (fl s' = GREATERTHAN \<longleftrightarrow> x > y) \<and>
     pc s' = pc s + 3 \<and> registers s' = registers s \<and> ram s' = ram s"
proof -
  define flag where "flag =
    (if registers s ! nat a = registers s ! nat b then EQUAL
     else if registers s ! nat a < registers s ! nat b then LESSTHAN else GREATERTHAN)"
  have cmp: "alu s CMP a b = Inr (pc_set (pc s + 3) (fl_set flag s))"
    unfolding flag_def using compare_in_range [OF assms] by (simp add: alu_def opcode_defs)
  have "fl (pc_set (pc s + 3) (fl_set flag s)) = flag"
    using assms(1) by (simp add: fl_fl_set)
  moreover have "pc (pc_set (pc s + 3) (fl_set flag s)) = pc s + 3"
    using assms(1) by (simp add: pc_pc_set)
  moreover have "registers (pc_set (pc s + 3) (fl_set flag s)) = registers s"
    and "ram (pc_set (pc s + 3) (fl_set flag s)) = ram s"
    by (simp_all add: pc_set_def fl_set_def)
  ultimately show ?thesis
    unfolding Let_def cmp final_simps by (auto simp add: flag_def opcode_defs)
qed

theorem cmp_sets_one_flag_witness:
  "alu cpu_init CMP 0 7 = Inr (final (alu cpu_init CMP 0 7)) \<and>
   fl (final (alu cpu_init CMP 0 7)) = LESSTHAN \<and>
   pc (final (alu cpu_init CMP 0 7)) = pc cpu_init + 3"
proof -
  have r: "registers cpu_init ! 0 = 0" "registers cpu_init ! 7 = 244"
    by (simp_all add: cpu_init_def)
  show ?thesis
    using cmp_sets_one_flag [of cpu_init 0 7] by (simp add: wf_cpu_init Let_def r)
qed

subsection \<open>Conditional jumps\<close>

text \<open>
  Claim C8. With a register operand \<open>r\<close> in \<open>0..7\<close>, \<open>JEQ\<close> sets the program counter to
  register \<open>r\<close> when the flags register equals \<open>EQUAL\<close> and advances it by 2 otherwise;
  \<open>JNE\<close> sets it to register \<open>r\<close> when the flags register differs from \<open>EQUAL\<close> and
  advances it by 2 otherwise. Neither changes a general register, the flags register or
  memory.
\<close>

theorem conditional_jumps:
  assumes "wf_cpu s" "0 \<le> r" "r < 8"
  shows "jeq s op r b = Inr (pc_set (if fl s = EQUAL then registers s ! nat r else pc s + 2) s) \<and>
     jne s op r b = Inr (pc_set (if fl s \<noteq> EQUAL then registers s ! nat r else pc s + 2) s) \<and>
     pc (final (jeq s op r b)) = (if fl s = EQUAL then registers s ! nat r else pc s + 2) \<and>
     pc (final (jne s op r b)) = (if fl s \<noteq> EQUAL then registers s ! nat r else pc s + 2) \<and>
     registers (final (jeq s op r b)) = registers s \<and>
     registers (final (jne s op r b)) = registers s \<and>
     fl (final (jeq s op r b)) = fl s \<and> fl (final (jne s op r b)) = fl s \<and>
     ram (final (jeq s op r b)) = ram s \<and> ram (final (jne s op r b)) = ram s"
proof -
  have get: "getitem (registers s) r = Inr (registers s ! nat r)"
    using assms by (simp add: getitem_in_range wf_cpu_def)
  have jeq: "jeq s op r b = Inr (pc_set (if fl s = EQUAL then registers s ! nat r else pc s + 2) s)"
    by (simp add: jeq_def get)
  have jne: "jne s op r b = Inr (pc_set (if fl s \<noteq> EQUAL then registers s ! nat r else pc s + 2) s)"
    by (simp add: jne_def get)
  have frame: "registers (pc_set v s) = registers s" "ram (pc_set v s) = ram s" for v
    by (simp_all add: pc_set_def)
  show ?thesis
    unfolding jeq jne using assms(1) by (simp add: pc_pc_set frame)
qed

theorem conditional_jumps_witness:
  "jeq cpu_init JEQ 7 0 = Inr (pc_set (pc cpu_init + 2) cpu_init) \<and>
   jne cpu_init JNE 7 0 = Inr (pc_set 244 cpu_init)"
proof -
  have r: "registers cpu_init ! 7 = 244" "fl cpu_init \<noteq> EQUAL"
    by (simp_all add: cpu_init_def fl_def opcode_defs)
  show ?thesis
    using conditional_jumps [of cpu_init 7 JEQ 0] conditional_jumps [of cpu_init 7 JNE 0]
    by (simp add: wf_cpu_init r)
qed

subsection \<open>The flags register\<close>

lemma ram_write_fl: "ram_write s mdr mar = r \<Longrightarrow> fl (final r) = fl s"
  by (auto simp add: ram_write_def split: sum.splits)

lemma ldi_fl: "fl (final (ldi s op a b)) = fl s"
  by (simp add: ldi_def split: sum.splits)

lemma prn_fl: "fl (final (prn s op a b)) = fl s"
  by (simp add: prn_def split: sum.splits)

lemma nop_fl: "fl (final (nop s op a b)) = fl s"
  by (simp add: nop_def)

lemma push_fl: "fl (final (push s op a b)) = fl s"
  by (auto simp add: push_def Let_def split: sum.splits dest: ram_write_fl)

lemma pop_fl: "fl (final (pop s op a b)) = fl s"
  by (simp add: pop_def Let_def split: sum.splits)

lemma call_fl: "fl (final (call s op a b)) = fl s"
  by (auto simp add: call_def Let_def split: sum.splits dest: ram_write_fl)

lemma ret_fl: "fl (final (ret s op a b)) = fl s"
  by (simp add: ret_def Let_def split: sum.splits)

lemma jmp_fl: "fl (final (jmp s op a b)) = fl s"
  by (simp add: jmp_def split: sum.splits)

lemma jeq_fl: "fl (final (jeq s op a b)) = fl s"
  by (simp add: jeq_def split: sum.splits)

lemma jne_fl: "fl (final (jne s op a b)) = fl s"
  by (simp add: jne_def split: sum.splits)

lemma binop_fl: "fl (final (binop f s a b)) = fl s"
  by (simp add: binop_def split: sum.splits)

lemma alu_fl: "op \<noteq> CMP \<Longrightarrow> fl (final (alu s op a b)) = fl s"
  by (simp add: alu_def binop_fl)

lemma dispatch_cases:
  assumes "dispatch op = Some h"
  shows "op = NOP \<and> h = nop \<or> op = LDI \<and> h = ldi \<or> op = PRN \<and> h = prn \<or>
     op = MUL \<and> h = alu \<or> op = ADD \<and> h = alu \<or> op = PUSH \<and> h = push \<or>
     op = POP \<and> h = pop \<or> op = CALL \<and> h = call \<or> op = RET \<and> h = ret \<or>
     op = CMP \<and> h = alu \<or> op = JMP \<and> h = jmp \<or> op = JEQ \<and> h = jeq \<or>
     op = JNE \<and> h = jne"
  using assms by (simp add: dispatch_def split: if_splits)

lemma dispatch_fl:
  assumes "dispatch op = Some h" "op \<noteq> CMP"
  shows "fl (final (h s op a b)) = fl s"
  using dispatch_cases [OF assms(1)] assms(2)
  by (auto simp add: nop_fl ldi_fl prn_fl alu_fl push_fl pop_fl call_fl ret_fl jmp_fl jeq_fl jne_fl)

text \<open>
  Claim C9. Each of \<open>NOP\<close>, \<open>LDI\<close>, \<open>PRN\<close>, \<open>PUSH\<close>, \<open>POP\<close>, \<open>CALL\<close>, \<open>RET\<close>, \<open>JMP\<close>,
  \<open>JEQ\<close>, \<open>JNE\<close>, \<open>ADD\<close> and \<open>MUL\<close> leaves the flags register as it found it, from every
  starting state and for all operands, whether the handler returns or raises; so does
  whatever handler the dispatch dictionary holds for an opcode other than \<open>CMP\<close>.
\<close>

theorem flags_written_by_cmp_only:
  "fl (final (nop s op a b)) = fl s \<and> fl (final (ldi s op a b)) = fl s \<and>
   fl (final (prn s op a b)) = fl s \<and> fl (final (push s op a b)) = fl s \<and>
   fl (final (pop s op a b)) = fl s \<and> fl (final (call s op a b)) = fl s \<and>
   fl (final (ret s op a b)) = fl s \<and> fl (final (jmp s op a b)) = fl s \<and>
   fl (final (jeq s op a b)) = fl s \<and> fl (final (jne s op a b)) = fl s \<and>
   fl (final (alu s ADD a b)) = fl s \<and> fl (final (alu s MUL a b)) = fl s \<and>
   (\<forall>h. dispatch op = Some h \<and> op \<noteq> CMP \<longrightarrow> fl (final (h s op a b)) = fl s)"
proof -
  have "ADD \<noteq> CMP" "MUL \<noteq> CMP"
    by (simp_all add: opcode_defs)
  then have "fl (final (alu s ADD a b)) = fl s" "fl (final (alu s MUL a b)) = fl s"
    by (simp_all add: alu_fl)
  then show ?thesis
    by (simp add: nop_fl ldi_fl prn_fl push_fl pop_fl call_fl ret_fl jmp_fl jeq_fl jne_fl
        dispatch_fl)
qed

theorem flags_written_by_cmp_only_witness:
  "fl (final (push cpu_init PUSH 0 0)) = fl cpu_init"
proof -
  have "dispatch PUSH = Some push" "PUSH \<noteq> CMP"
    by (simp_all add: dispatch_def opcode_defs)
  then show ?thesis
    using flags_written_by_cmp_only [of cpu_init PUSH 0 0] by simp
qed

subsection \<open>List lengths are kept\<close>

lemma wf_cpu_registers:
  "setitem (registers s) i v = Inr rs \<Longrightarrow> wf_cpu (s\<lparr>registers := rs\<rparr>) = wf_cpu s"
  by (auto simp add: wf_cpu_def dest: setitem_length)

lemma wf_cpu_ram:
  "setitem (ram s) i v = Inr m \<Longrightarrow> wf_cpu (s\<lparr>ram := m\<rparr>) = wf_cpu s"
  by (auto simp add: wf_cpu_def dest: setitem_length)

lemma ram_write_wf: "ram_write s mdr mar = r \<Longrightarrow> wf_cpu (final r) = wf_cpu s"
  by (auto simp add: ram_write_def wf_cpu_ram split: sum.splits)

lemma ldi_wf: "wf_cpu (final (ldi s op a b)) = wf_cpu s"
  by (simp add: ldi_def wf_cpu_registers split: sum.splits)

lemma prn_wf: "wf_cpu (final (prn s op a b)) = wf_cpu s"
  by (simp add: prn_def split: sum.splits)

lemma nop_wf: "wf_cpu (final (nop s op a b)) = wf_cpu s"
  by (simp add: nop_def)

lemma push_wf: "wf_cpu (final (push s op a b)) = wf_cpu s"
  by (auto simp add: push_def Let_def split: sum.splits dest: ram_write_wf)

lemma pop_wf: "wf_cpu (final (pop s op a b)) = wf_cpu s"
  by (simp add: pop_def Let_def wf_cpu_registers split: sum.splits)

lemma call_wf: "wf_cpu (final (call s op a b)) = wf_cpu s"
  by (auto simp add: call_def Let_def split: sum.splits dest: ram_write_wf)

lemma ret_wf: "wf_cpu (final (ret s op a b)) = wf_cpu s"
  by (simp add: ret_def Let_def split: sum.splits)

lemma jmp_wf: "wf_cpu (final (jmp s op a b)) = wf_cpu s"
  by (simp add: jmp_def split: sum.splits)

lemma jeq_wf: "wf_cpu (final (jeq s op a b)) = wf_cpu s"
  by (simp add: jeq_def split: sum.splits)

lemma jne_wf: "wf_cpu (final (jne s op a b)) = wf_cpu s"
  by (simp add: jne_def split: sum.splits)

lemma alu_wf: "wf_cpu (final (alu s op a b)) = wf_cpu s"
  by (simp add: alu_def binop_def compare_def Let_def wf_cpu_registers split: sum.splits)

lemma dispatch_wf: "dispatch op = Some h \<Longrightarrow> wf_cpu (final (h s op a b)) = wf_cpu s"
  by (auto dest!: dispatch_cases
      simp add: nop_wf ldi_wf prn_wf alu_wf push_wf pop_wf call_wf ret_wf jmp_wf jeq_wf jne_wf)

lemma load_from_wf: "wf_cpu (final (load_from s address program)) = wf_cpu s"
  by (induction s address program rule: load_from.induct)
    (simp_all add: wf_cpu_ram split: sum.splits)

lemma load_from_fl: "fl (final (load_from s address program)) = fl s"
  by (induction s address program rule: load_from.induct) (simp_all split: sum.splits)

subsection \<open>One turn of the loop\<close>

lemma ram_read_ir_set [simp]: "ram_read (ir_set v s) mar = ram_read s mar"
  by (simp add: ram_read_def ir_set_def)

text \<open>What a turn that returns to the loop head has done.\<close>

lemma cycle_Continue:
  assumes "wf_cpu s" "cycle s = Continue t"
  shows "\<exists>opc a b h. ram_read s (pc s) = Inr opc \<and> dispatch opc = Some h \<and> opc \<noteq> HLT \<and>
     h (ir_set opc s) opc a b = Inr t"
  using assms
  by (auto simp add: cycle_def Let_def ir_ir_set split: sum.splits if_splits option.splits)

lemma cycle_wf:
  assumes "wf_cpu s" "cycle s = Continue t"
  shows "wf_cpu t"
proof -
  from cycle_Continue [OF assms] obtain opc a b h
    where "dispatch opc = Some h" and "h (ir_set opc s) opc a b = Inr t"
    by blast
  then show ?thesis
    using dispatch_wf [of opc h "ir_set opc s" a b] assms(1) by simp
qed

lemma cycle_fl:
  assumes "wf_cpu s" "cycle s = Continue t" "ram_read s (pc s) \<noteq> Inr CMP"
  shows "fl t = fl s"
proof -
  from cycle_Continue [OF assms(1,2)] obtain opc a b h
    where "ram_read s (pc s) = Inr opc" and "dispatch opc = Some h"
      and "h (ir_set opc s) opc a b = Inr t"
    by blast
  then show ?thesis
    using dispatch_fl [of opc h "ir_set opc s" a b] assms(3) by simp
qed

lemma cycles_before_CMP:
  "wf_cpu s \<Longrightarrow> cycles_before CMP n s = Some t \<Longrightarrow> wf_cpu t \<and> fl t = fl s"
proof (induction n arbitrary: s)
  case 0
  then show ?case by simp
next
  case (Suc n)
  from Suc.prems(2) obtain s1 where no_cmp: "ram_read s (pc s) \<noteq> Inr CMP"
    and turn: "cycle s = Continue s1" and rest: "cycles_before CMP n s1 = Some t"
    by (auto split: if_splits cycle_result.splits)
  from Suc.prems(1) turn have "wf_cpu s1"
    by (rule cycle_wf)
  moreover from Suc.prems(1) turn no_cmp have "fl s1 = fl s"
    by (rule cycle_fl)
  ultimately show ?case
    using Suc.IH [OF _ rest] by simp
qed

subsection \<open>A fresh machine\<close>

text \<open>
  Claim C10. A freshly constructed machine has 0 in its flags register, which is none of
  \<open>EQUAL = 1\<close>, \<open>GREATERTHAN = 2\<close>, \<open>LESSTHAN = 4\<close>. Load any program into it and let the
  loop take any number of turns, none of which fetches \<open>CMP\<close>: the flags register is
  still 0, so \<open>JEQ\<close> returns with the program counter advanced by 2, and \<open>JNE\<close> with a
  register operand \<open>r\<close> in \<open>0..7\<close> returns with the program counter equal to whatever
  register \<open>r\<close> holds; neither changes a register, the flags register or memory.
\<close>

theorem fresh_machine_jumps:
  assumes "load cpu_init program = Inr s0" "cycles_before CMP n s0 = Some s" "0 \<le> r" "r < 8"
  shows "fl cpu_init = 0 \<and> EQUAL = 1 \<and> GREATERTHAN = 2 \<and> LESSTHAN = 4 \<and>
     fl cpu_init \<notin> {EQUAL, GREATERTHAN, LESSTHAN} \<and> fl s = 0 \<and>
     jeq s op r b = Inr (pc_set (pc s + 2) s) \<and>
     jne s op r b = Inr (pc_set (registers s ! nat r) s) \<and>
     jeq s op r b = Inr (final (jeq s op r b)) \<and>
     pc (final (jeq s op r b)) = pc s + 2 \<and>
     jne s op r b = Inr (final (jne s op r b)) \<and>
     pc (final (jne s op r b)) = registers s ! nat r \<and>
     registers (final (jeq s op r b)) = registers s \<and>
     registers (final (jne s op r b)) = registers s \<and>
     fl (final (jeq s op r b)) = 0 \<and> fl (final (jne s op r b)) = 0 \<and>
     ram (final (jeq s op r b)) = ram s \<and> ram (final (jne s op r b)) = ram s"
proof -
  have fresh: "fl cpu_init = 0"
    by (simp add: fl_def cpu_init_def)
  from assms(1) have "final (load_from cpu_init 0 program) = s0"
    by (simp add: load_def)
  then have "wf_cpu s0" and "fl s0 = 0"
    using load_from_wf [of cpu_init 0 program] load_from_fl [of cpu_init 0 program]
    by (simp_all add: wf_cpu_init fresh)
  with assms(2) have s: "wf_cpu s" "fl s = 0"
    using cycles_before_CMP [of s0 n s] by simp_all
  then have "getitem (registers s) r = Inr (registers s ! nat r)"
    using assms(3,4) by (simp add: getitem_in_range wf_cpu_def)
  then have jeq: "jeq s op r b = Inr (pc_set (pc s + 2) s)"
    and jne: "jne s op r b = Inr (pc_set (registers s ! nat r) s)"
    using s(2) by (simp_all add: jeq_def jne_def opcode_defs)
  have moved: "pc (pc_set v s) = v" for v
    using s(1) by (rule pc_pc_set)
  have frame: "registers (pc_set v s) = registers s" "ram (pc_set v s) = ram s" for v
    by (simp_all add: pc_set_def)
  have flags: "EQUAL = 1" "GREATERTHAN = 2" "LESSTHAN = 4"
    by (simp_all add: opcode_defs)
  have apart: "fl cpu_init \<notin> {EQUAL, GREATERTHAN, LESSTHAN}"
    by (simp add: fresh opcode_defs)
  show ?thesis
    unfolding jeq jne final_simps moved frame fl_unchanged
    using fresh flags apart s(2) by blast
qed

theorem fresh_machine_jumps_witness:
  "pc (pc_set 1 (ir_set 0 (cpu_init\<lparr>ram := (ram cpu_init)[0 := 0, 1 := 86, 2 := 7]\<rparr>))) = 1 \<and>
   pc (final
     (jeq (pc_set 1 (ir_set 0 (cpu_init\<lparr>ram := (ram cpu_init)[0 := 0, 1 := 86, 2 := 7]\<rparr>)))
        JEQ 7 0)) = 3 \<and>
   pc (final
     (jne (pc_set 1 (ir_set 0 (cpu_init\<lparr>ram := (ram cpu_init)[0 := 0, 1 := 86, 2 := 7]\<rparr>)))
        JNE 7 0)) = 244 \<and>
   jeq (pc_set 1 (ir_set 0 (cpu_init\<lparr>ram := (ram cpu_init)[0 := 0, 1 := 86, 2 := 7]\<rparr>))) JEQ 7 0 =
     Inr (pc_set 3 (ir_set 0 (cpu_init\<lparr>ram := (ram cpu_init)[0 := 0, 1 := 86, 2 := 7]\<rparr>))) \<and>
   jne (pc_set 1 (ir_set 0 (cpu_init\<lparr>ram := (ram cpu_init)[0 := 0, 1 := 86, 2 := 7]\<rparr>))) JNE 7 0 =
     Inr (pc_set 244 (ir_set 0 (cpu_init\<lparr>ram := (ram cpu_init)[0 := 0, 1 := 86, 2 := 7]\<rparr>)))"
proof -
  define s0 where "s0 = cpu_init\<lparr>ram := (ram cpu_init)[0 := 0, 1 := 86, 2 := 7]\<rparr>"
  define s where "s = pc_set 1 (ir_set 0 s0)"
  have loaded: "load cpu_init [0, 86, 7] = Inr s0"
    by (simp add: s0_def load_def setitem_def subscript_def cpu_init_def)
  have turn: "cycles_before CMP 1 s0 = Some s"
    by (simp add: s_def s0_def cycle_def ram_read_def getitem_def subscript_def cpu_init_def
        pc_def ir_def ir_set_def pc_set_def dispatch_def nop_def opcode_defs)
  have vals: "pc s = 1" "registers s ! 7 = 244" "pc_set 3 s = pc_set 3 (ir_set 0 s0)"
    "pc_set 244 s = pc_set 244 (ir_set 0 s0)"
    by (simp_all add: s_def s0_def cpu_init_def pc_def pc_set_def ir_set_def)
  have r: "(0::int) \<le> 7" "(7::int) < 8"
    by simp_all
  have "jeq s JEQ 7 0 = Inr (pc_set (pc s + 2) s)"
    and "pc (final (jeq s JEQ 7 0)) = pc s + 2"
    using fresh_machine_jumps [OF loaded turn r, of JEQ 0] by blast+
  moreover have "jne s JNE 7 0 = Inr (pc_set (registers s ! nat 7) s)"
    and "pc (final (jne s JNE 7 0)) = registers s ! nat 7"
    using fresh_machine_jumps [OF loaded turn r, of JNE 0] by blast+
  ultimately show ?thesis
    unfolding s0_def [symmetric] s_def [symmetric] by (simp add: vals)
qed

subsection \<open>Memory bounds\<close>

lemma cycle_fetch_outside:
  assumes "wf_cpu s" "256 \<le> pc s \<or> pc s < - 256"
  shows "cycle s = Raise IndexError s"
  using assms by (simp add: cycle_def ram_read_def getitem_outside wf_cpu_def)

text \<open>
  Claim C2, as the code has it. \<^verbatim>\<open>ram_read\<close> and \<^verbatim>\<open>ram_write\<close> subscript the memory list
  with the address as it comes. An address of 256 or more, or below \<open>-256\<close>, raises
  \<^verbatim>\<open>IndexError\<close> and changes nothing, and a fetch at such a program counter ends the run
  with that exception. An address in \<open>0..255\<close> is its own cell. An address in
  \<open>-256..-1\<close> is not rejected: it denotes cell \<open>256 + address\<close>.
\<close>

theorem memory_access_bounds:
  assumes "wf_cpu s"
  shows "(256 \<le> mar \<or> mar < - 256 \<longrightarrow>
       ram_read s mar = Inl IndexError \<and> ram_write s mdr mar = Inl (IndexError, s)) \<and>
     (0 \<le> mar \<and> mar < 256 \<longrightarrow>
       ram_read s mar = Inr (ram s ! nat mar) \<and>
       ram_write s mdr mar = Inr (s\<lparr>ram := (ram s)[nat mar := mdr]\<rparr>)) \<and>
     (- 256 \<le> mar \<and> mar < 0 \<longrightarrow>
       ram_read s mar = Inr (ram s ! nat (256 + mar)) \<and>
       ram_write s mdr mar = Inr (s\<lparr>ram := (ram s)[nat (256 + mar) := mdr]\<rparr>)) \<and>
     (256 \<le> pc s \<or> pc s < - 256 \<longrightarrow> run s = Some (Inl (IndexError, s)))"
proof -
  have len: "int (length (ram s)) = 256"
    using assms by (simp add: wf_cpu_def)
  have outside: "ram_read s mar = Inl IndexError \<and> ram_write s mdr mar = Inl (IndexError, s)"
    if "256 \<le> mar \<or> mar < - 256"
    using that by (simp add: ram_read_def ram_write_def getitem_outside setitem_outside len)
  have inside: "ram_read s mar = Inr (ram s ! nat mar) \<and>
      ram_write s mdr mar = Inr (s\<lparr>ram := (ram s)[nat mar := mdr]\<rparr>)"
    if "0 \<le> mar \<and> mar < 256"
    using that by (simp add: ram_read_def ram_write_def getitem_in_range setitem_in_range len)
  have negative: "ram_read s mar = Inr (ram s ! nat (256 + mar)) \<and>
      ram_write s mdr mar = Inr (s\<lparr>ram := (ram s)[nat (256 + mar) := mdr]\<rparr>)"
    if "- 256 \<le> mar \<and> mar < 0"
    using that by (simp add: ram_read_def ram_write_def getitem_negative setitem_negative len)
  have fetch: "run s = Some (Inl (IndexError, s))" if "256 \<le> pc s \<or> pc s < - 256"
    using cycle_fetch_outside [OF assms that] by (subst run.simps) simp
  from outside inside negative fetch show ?thesis
    by blast
qed

theorem memory_access_bounds_witness:
  "ram_read cpu_init 256 = Inl IndexError \<and>
   ram_write cpu_init 42 256 = Inl (IndexError, cpu_init) \<and>
   ram_read cpu_init 255 = Inr (ram cpu_init ! 255) \<and>
   ram_write cpu_init 42 (- 256) = Inr (cpu_init\<lparr>ram := (ram cpu_init)[0 := 42]\<rparr>) \<and>
   run (pc_set 256 cpu_init) = Some (Inl (IndexError, pc_set 256 cpu_init))"
proof -
  have "pc (pc_set 256 cpu_init) = 256"
    by (simp add: pc_pc_set wf_cpu_init)
  then show ?thesis
    using memory_access_bounds [OF wf_cpu_init, of 256 42]
      memory_access_bounds [OF wf_cpu_init, of 255 42]
      memory_access_bounds [OF wf_cpu_init, of "- 256" 42]
      memory_access_bounds [of "pc_set 256 cpu_init" 0 0]
    by (simp add: wf_cpu_init)
qed

text \<open>
  Address \<open>-1\<close> is cell 255. \<^verbatim>\<open>LDI r7 0; LDI r0 42; PUSH r0; HLT\<close> pushes with the stack
  pointer at 0: the run halts normally with 42 in cell 255 and \<open>-1\<close> in register 7.
\<close>

theorem negative_address_counterexample:
  "ram_write cpu_init 42 (- 1) = Inr (cpu_init\<lparr>ram := (ram cpu_init)[255 := 42]\<rparr>) \<and>
   ram_read (cpu_init\<lparr>ram := (ram cpu_init)[255 := 42]\<rparr>) (- 1) = Inr 42 \<and>
   map_option (map_sum fst (\<lambda>s. (registers s, ram s ! 255)))
     (run (final (load cpu_init [130, 7, 0, 130, 0, 42, 69, 0, 1]))) =
     Some (Inr ([42, 0, 0, 0, 0, 0, 0, - 1], 42))"
proof -
  have "ram_write cpu_init 42 (- 1) = Inr (cpu_init\<lparr>ram := (ram cpu_init)[255 := 42]\<rparr>)"
    by (simp add: ram_write_def setitem_def subscript_def cpu_init_def)
  moreover have "ram_read (cpu_init\<lparr>ram := (ram cpu_init)[255 := 42]\<rparr>) (- 1) = Inr 42"
    by (simp add: ram_read_def getitem_def subscript_def cpu_init_def)
  moreover have "map_option (map_sum fst (\<lambda>s. (registers s, ram s ! 255)))
     (run (final (load cpu_init [130, 7, 0, 130, 0, 42, 69, 0, 1]))) =
     Some (Inr ([42, 0, 0, 0, 0, 0, 0, - 1], 42))"
    apply (simp add: load_def cpu_init_def setitem_def subscript_def)
    apply (simp add: run.simps cycle_def ram_read_def ram_write_def getitem_def subscript_def
        pc_def ir_def ir_set_def pc_set_def sp_def sp_set_def dispatch_def opcode_defs
        ldi_def push_def setitem_def)
    apply (simp add: eval_nat_numeral)
    done
  ultimately show ?thesis
    by blast
qed

subsection \<open>Opcodes without a handler\<close>

lemma cycles_run: "cycles n s = Some t \<Longrightarrow> run s = run t"
proof (induction n arbitrary: s)
  case 0
  then show ?case by simp
next
  case (Suc n)
  from Suc.prems obtain s1 where turn: "cycle s = Continue s1" and rest: "cycles n s1 = Some t"
    by (auto split: cycle_result.splits)
  from turn have "run s = run s1"
    by (subst run.simps) simp
  also from rest have "run s1 = run t"
    by (rule Suc.IH)
  finally show ?case .
qed

lemma cycle_no_handler:
  assumes "wf_cpu s" "- 256 \<le> pc s" "pc s + 2 < 256"
    and "ram_read s (pc s) = Inr opc" "opc \<noteq> HLT" "dispatch opc = None"
  shows "cycle s = Raise (KeyError opc) (ir_set opc s)"
proof -
  have len: "int (length (ram s)) = 256"
    using assms(1) by (simp add: wf_cpu_def)
  have readable: "\<exists>v. ram_read s mar = Inr v" if "- 256 \<le> mar" "mar < 256" for mar
    using that getitem_in_range [of mar "ram s"] getitem_negative [of mar "ram s"]
    by (cases "0 \<le> mar") (simp_all add: ram_read_def len)
  from assms(2,3) obtain a b
    where "ram_read s (pc s + 1) = Inr a" and "ram_read s (pc s + 2) = Inr b"
    using readable [of "pc s + 1"] readable [of "pc s + 2"] by auto
  then show ?thesis
    using assms by (simp add: cycle_def Let_def ir_ir_set)
qed

text \<open>
  Claim C3, as the code has it. Let the loop, started in \<open>s0\<close>, reach after any number of
  turns a state whose program counter points at an opcode that is not \<open>HLT\<close> and has no
  entry in the dispatch dictionary, with the opcode cell and the two operand cells after
  it readable (the program counter lies in \<open>-256..253\<close>). Then the run from \<open>s0\<close> ends
  with \<^verbatim>\<open>KeyError\<close> carrying that opcode, and the machine is left with the opcode in its
  instruction register and its program counter, registers and memory as they were at the
  fetch: the instruction is not skipped. The exception carries the opcode only.
\<close>

theorem no_handler_raises_KeyError:
  assumes "wf_cpu s0" "cycles n s0 = Some s"
    and "- 256 \<le> pc s" "pc s + 2 < 256"
    and "ram_read s (pc s) = Inr opc" "opc \<noteq> HLT" "dispatch opc = None"
  shows "run s0 = Some (Inl (KeyError opc, ir_set opc s)) \<and>
     cycle s = Raise (KeyError opc) (ir_set opc s) \<and>
     ir (ir_set opc s) = opc \<and> pc (ir_set opc s) = pc s \<and>
     registers (ir_set opc s) = registers s \<and> ram (ir_set opc s) = ram s"
proof -
  have wf: "wf_cpu s"
    using assms(1,2)
  proof (induction n arbitrary: s0)
    case 0
    then show ?case by simp
  next
    case (Suc n)
    from Suc.prems(2) obtain s1 where "cycle s0 = Continue s1" and "cycles n s1 = Some s"
      by (auto split: cycle_result.splits)
    with Suc.prems(1) Suc.IH [of s1] show ?case
      by (simp add: cycle_wf)
  qed
  then have stop: "cycle s = Raise (KeyError opc) (ir_set opc s)"
    using assms(3-7) by (rule cycle_no_handler)
  have "run s0 = run s"
    using assms(2) by (rule cycles_run)
  also have "run s = Some (Inl (KeyError opc, ir_set opc s))"
    by (subst run.simps) (simp add: stop)
  finally show ?thesis
    using stop wf by (simp add: ir_ir_set) (simp add: ir_set_def)
qed

theorem no_handler_raises_KeyError_witness:
  "run (final (load cpu_init [0, 153])) =
     Some (Inl (KeyError 153, ir_set 153 (pc_set 1 (ir_set 0 (final (load cpu_init [0, 153]))))))"
proof -
  define s0 where "s0 = cpu_init\<lparr>ram := (ram cpu_init)[0 := 0, 1 := 153]\<rparr>"
  define s where "s = pc_set 1 (ir_set 0 s0)"
  have loaded: "final (load cpu_init [0, 153]) = s0"
    by (simp add: s0_def load_def setitem_def subscript_def cpu_init_def)
  have wf: "wf_cpu s0"
    by (simp add: s0_def wf_cpu_def cpu_init_def)
  have turn: "cycles 1 s0 = Some s"
    by (simp add: s_def s0_def cycle_def ram_read_def getitem_def subscript_def cpu_init_def
        pc_def ir_def ir_set_def pc_set_def dispatch_def nop_def opcode_defs)
  have at: "pc s = 1" "ram_read s 1 = Inr 153" "(153::int) \<noteq> HLT" "dispatch 153 = None"
    by (simp_all add: s_def s0_def cpu_init_def pc_def pc_set_def ir_set_def ram_read_def
        getitem_def subscript_def dispatch_def opcode_defs)
  show ?thesis
    using no_handler_raises_KeyError [OF wf turn, of 153] at
    unfolding loaded s_def [symmetric] by simp
qed

text \<open>
  \<^verbatim>\<open>LDI r7 255; LDI r0 153; PUSH r0; JMP r7\<close> stores 153, an opcode without a handler, in
  cell 254 and jumps to it. The opcode is fetched, but the fetch of the second operand
  reads cell 256: the run ends with \<^verbatim>\<open>IndexError\<close>, not with \<^verbatim>\<open>KeyError\<close>.
\<close>

theorem no_handler_counterexample:
  "map_option (map_sum (\<lambda>(e, s). (e, pc s, ir s)) registers)
     (run (final (load cpu_init [130, 7, 255, 130, 0, 153, 69, 0, 84, 7]))) =
     Some (Inl (IndexError, 254, 153)) \<and>
   dispatch 153 = None \<and> 153 \<noteq> HLT"
proof -
  have "map_option (map_sum (\<lambda>(e, s). (e, pc s, ir s)) registers)
     (run (final (load cpu_init [130, 7, 255, 130, 0, 153, 69, 0, 84, 7]))) =
     Some (Inl (IndexError, 254, 153))"
    apply (simp add: load_def cpu_init_def setitem_def subscript_def)
    apply (simp add: run.simps cycle_def ram_read_def ram_write_def getitem_def subscript_def
        pc_def ir_def ir_set_def pc_set_def sp_def sp_set_def dispatch_def opcode_defs
        ldi_def push_def jmp_def setitem_def)
    done
  moreover have "dispatch 153 = None" "153 \<noteq> HLT"
    by (simp_all add: dispatch_def opcode_defs)
  ultimately show ?thesis
    by blast
qed

subsection \<open>Stack\<close>

lemma ldi_in_range:
  assumes "wf_cpu s" "0 \<le> r" "r < 8"
  shows "ldi s op r v = Inr (pc_set (pc s + 3) (s\<lparr>registers := (registers s)[nat r := v]\<rparr>))"
  using assms by (simp add: ldi_def setitem_in_range wf_cpu_def)

lemma push_in_range:
  assumes "wf_cpu s" "0 \<le> r" "r < 7" "0 < sp s" "sp s \<le> 256"
  shows "push s op r b =
     Inr (pc_set (pc s + 2)
       (s\<lparr>registers := (registers s)[7 := sp s - 1],
          ram := (ram s)[nat (sp s - 1) := registers s ! nat r]\<rparr>))"
proof -
  have "nat r \<noteq> 7"
    using assms(2,3) by simp
  then show ?thesis
    using assms
    by (simp add: push_def Let_def ram_write_def getitem_in_range setitem_in_range wf_cpu_def
        sp_def sp_set_def pc_set_def pc_def)
qed

lemma pop_in_range:
  assumes "wf_cpu s" "0 \<le> r" "r < 7" "0 \<le> sp s" "sp s < 256"
  shows "pop s op r b =
     Inr (pc_set (pc s + 2)
       (s\<lparr>registers := (registers s)[nat r := ram s ! nat (sp s), 7 := sp s + 1]\<rparr>))"
proof -
  have "nat r \<noteq> 7"
    using assms(2,3) by simp
  then show ?thesis
    using assms
    by (simp add: pop_def Let_def ram_read_def getitem_in_range setitem_in_range wf_cpu_def
        sp_def sp_set_def pc_set_def pc_def)
qed

text \<open>
  Claim C6, as the code has it. For a register \<open>r\<close> in \<open>0..6\<close>, any value \<open>v\<close> and any
  starting stack pointer whose slot below lies in memory (\<open>1 \<le> SP \<le> 256\<close>), the calls
  \<^verbatim>\<open>LDI r v; PUSH r; LDI r 0; POP r\<close> all return, and leave \<open>v\<close> in register \<open>r\<close> and the
  stack pointer where it started. Register 7 is the stack pointer itself and is excluded.
\<close>

theorem push_pop_roundtrip:
  assumes "wf_cpu s" "0 \<le> r" "r < 7" "0 < sp s" "sp s \<le> 256"
  shows "let t = final (calls s [(ldi, LDI, r, v), (push, PUSH, r, b1), (ldi, LDI, r, 0),
                                 (pop, POP, r, b2)])
     in calls s [(ldi, LDI, r, v), (push, PUSH, r, b1), (ldi, LDI, r, 0), (pop, POP, r, b2)] =
          Inr t \<and>
        registers t ! nat r = v \<and> sp t = sp s"
proof -
  have r: "0 \<le> r" "r < 8" "nat r \<noteq> 7" "nat r < 8"
    using assms(2,3) by simp_all
  define s1 where "s1 = pc_set (pc s + 3) (s\<lparr>registers := (registers s)[nat r := v]\<rparr>)"
  define s2 where "s2 = pc_set (pc s1 + 2)
    (s1\<lparr>registers := (registers s1)[7 := sp s1 - 1],
        ram := (ram s1)[nat (sp s1 - 1) := registers s1 ! nat r]\<rparr>)"
  define s3 where "s3 = pc_set (pc s2 + 3) (s2\<lparr>registers := (registers s2)[nat r := 0]\<rparr>)"
  define s4 where "s4 = pc_set (pc s3 + 2)
    (s3\<lparr>registers := (registers s3)[nat r := ram s3 ! nat (sp s3), 7 := sp s3 + 1]\<rparr>)"
  have wf1: "wf_cpu s1" and sp1: "sp s1 = sp s" and v1: "registers s1 ! nat r = v"
    using assms(1) r by (simp_all add: s1_def wf_cpu_def pc_set_def sp_def)
  have wf2: "wf_cpu s2" and sp2: "sp s2 = sp s - 1" and m2: "ram s2 ! nat (sp s - 1) = v"
    using wf1 sp1 v1 assms(4,5) by (simp_all add: s2_def wf_cpu_def pc_set_def sp_def)
  have wf3: "wf_cpu s3" and sp3: "sp s3 = sp s - 1" and m3: "ram s3 ! nat (sp s - 1) = v"
    using wf2 sp2 m2 r by (simp_all add: s3_def wf_cpu_def pc_set_def sp_def)
  have v4: "registers s4 ! nat r = v" and sp4: "sp s4 = sp s"
    using wf3 sp3 m3 r by (simp_all add: s4_def wf_cpu_def pc_set_def sp_def)
  have "ldi s LDI r v = Inr s1"
    unfolding s1_def using assms(1) r(1,2) by (rule ldi_in_range)
  moreover have "push s1 PUSH r b1 = Inr s2"
    unfolding s2_def using wf1 assms(2,3) assms(4,5) [folded sp1] by (rule push_in_range)
  moreover have "ldi s2 LDI r 0 = Inr s3"
    unfolding s3_def using wf2 r(1,2) by (rule ldi_in_range)
  moreover have "pop s3 POP r b2 = Inr s4"
    unfolding s4_def using wf3 assms(2,3) assms(4,5) by (intro pop_in_range) (simp_all add: sp3)
  ultimately have "calls s [(ldi, LDI, r, v), (push, PUSH, r, b1), (ldi, LDI, r, 0),
      (pop, POP, r, b2)] = Inr s4"
    by simp
  then show ?thesis
    by (simp add: v4 sp4)
qed

theorem push_pop_roundtrip_witness:
  "registers (final (calls cpu_init [(ldi, LDI, 3, 200), (push, PUSH, 3, 0), (ldi, LDI, 3, 0),
      (pop, POP, 3, 0)])) ! 3 = 200 \<and>
   sp (final (calls cpu_init [(ldi, LDI, 3, 200), (push, PUSH, 3, 0), (ldi, LDI, 3, 0),
      (pop, POP, 3, 0)])) = 244"
proof -
  have "sp cpu_init = 244"
    by (simp add: sp_def cpu_init_def)
  then show ?thesis
    using push_pop_roundtrip [of cpu_init 3 200 0 0] by (simp add: wf_cpu_init Let_def)
qed

text \<open>
  With register 7, the stack pointer itself, the round trip fails: on a fresh machine
  \<^verbatim>\<open>LDI r7 5; PUSH r7; LDI r7 0; POP r7\<close> touches cells 4 and 0 only and leaves 1 in
  register 7, which is neither the value 5 nor the initial stack pointer 244.
\<close>

theorem push_pop_sp_counterexample:
  "calls cpu_init [(ldi, LDI, 7, 5), (push, PUSH, 7, 0), (ldi, LDI, 7, 0), (pop, POP, 7, 0)] =
     Inr \<lparr>registers = [0, 0, 0, 0, 0, 0, 0, 1], int_registers = [10, 0, 0, 0, 0],
          ram = (replicate 256 0)[4 := 4], stdout = []\<rparr> \<and>
   sp cpu_init = 244"
  by (simp add: cpu_init_def ldi_def push_def pop_def ram_read_def ram_write_def setitem_def
      getitem_def subscript_def pc_def pc_set_def sp_def sp_set_def opcode_defs eval_nat_numeral)

subsection \<open>Call and return\<close>

lemma ram_read_readable:
  assumes "wf_cpu s" "- 256 \<le> mar" "mar < 256"
  shows "ram_read s mar = Inr (ram s ! the (subscript 256 mar))"
  using assms by (simp add: ram_read_def getitem_def wf_cpu_def subscript_def)

lemma call_in_range:
  assumes "wf_cpu s" "0 \<le> r" "r < 8" "- 256 \<le> sp s - 1" "sp s - 1 < 256"
  shows "call s op r b =
     Inr (pc_set ((registers s)[7 := sp s - 1] ! nat r)
       (s\<lparr>registers := (registers s)[7 := sp s - 1],
          ram := (ram s)[the (subscript 256 (sp s - 1)) := pc s + 2]\<rparr>))"
  using assms
  by (simp add: call_def Let_def ram_write_def getitem_in_range setitem_def subscript_def
      wf_cpu_def sp_def sp_set_def pc_set_def pc_def)

lemma ret_in_range:
  assumes "wf_cpu s" "ram_read s (sp s) = Inr v"
  shows "ret s op a b =
     Inr (s\<lparr>int_registers := (int_registers s)[0 := v],
            registers := (registers s)[7 := sp s + 1]\<rparr>)"
  using assms by (simp add: ret_def Let_def sp_def sp_set_def pc_set_def)

text \<open>
  Claim C7. Take a \<open>CALL\<close> with register operand \<open>r\<close> in \<open>0..7\<close>, executed with the program
  counter at \<open>P\<close> and with the slot below the stack pointer in memory. It returns normally,
  having decremented the stack pointer, written \<open>P + 2\<close> to the cell the stack pointer now
  designates, and set the program counter to register \<open>r\<close>; no other register changes.
  From any later state \<open>u\<close> in which the stack pointer and that cell are as the call left
  them, \<open>RET\<close> returns normally with the program counter at \<open>P + 2\<close> and the stack pointer
  at its value before the call. \<open>RET\<close> writes no register but the stack pointer, leaves
  memory alone, and its result does not depend on what the other registers hold.
\<close>

theorem call_ret_roundtrip:
  assumes "wf_cpu s" "0 \<le> r" "r < 8" "- 256 \<le> sp s - 1" "sp s - 1 < 256"
  shows "let t = final (call s op r b) in
     call s op r b = Inr t \<and>
     sp t = sp s - 1 \<and> ram_read t (sp t) = Inr (pc s + 2) \<and> pc t = registers t ! nat r \<and>
     registers t = (registers s)[7 := sp s - 1] \<and>
     (\<forall>u. wf_cpu u \<and> sp u = sp t \<and> ram_read u (sp u) = Inr (pc s + 2) \<longrightarrow>
        (let u' = final (ret u op' a' b') in
           ret u op' a' b' = Inr u' \<and> pc u' = pc s + 2 \<and> sp u' = sp s \<and>
           registers u' = (registers u)[7 := sp s] \<and> ram u' = ram u \<and>
           (\<forall>rs. length rs = 8 \<and> rs ! 7 = sp u \<longrightarrow>
              pc (final (ret (u\<lparr>registers := rs\<rparr>) op' a' b')) = pc u' \<and>
              registers (final (ret (u\<lparr>registers := rs\<rparr>) op' a' b')) = rs[7 := sp s])))"
proof -
  define t where "t = pc_set ((registers s)[7 := sp s - 1] ! nat r)
       (s\<lparr>registers := (registers s)[7 := sp s - 1],
          ram := (ram s)[the (subscript 256 (sp s - 1)) := pc s + 2]\<rparr>)"
  have call: "call s op r b = Inr t"
    unfolding t_def using assms by (rule call_in_range)
  have k: "the (subscript 256 (sp s - 1)) < 256"
    using assms(4,5) by (auto simp add: subscript_def)
  have wft: "wf_cpu t"
    using assms(1) by (simp add: t_def wf_cpu_def pc_set_def)
  have spt: "sp t = sp s - 1"
    using assms(1) by (simp add: t_def wf_cpu_def pc_set_def sp_def)
  have "ram_read t (sp t) = Inr (ram t ! the (subscript 256 (sp s - 1)))"
    unfolding spt using wft assms(4,5) by (rule ram_read_readable)
  also have "ram t ! the (subscript 256 (sp s - 1)) = pc s + 2"
    using assms(1) k by (simp add: t_def wf_cpu_def pc_set_def)
  finally have top: "ram_read t (sp t) = Inr (pc s + 2)" .
  have pct: "pc t = registers t ! nat r"
    using assms(1) by (simp add: t_def wf_cpu_def pc_set_def pc_def)
  have regst: "registers t = (registers s)[7 := sp s - 1]"
    by (simp add: t_def pc_set_def)
  have returns: "ret u op' a' b' = Inr (final (ret u op' a' b')) \<and>
      pc (final (ret u op' a' b')) = pc s + 2 \<and> sp (final (ret u op' a' b')) = sp s \<and>
      registers (final (ret u op' a' b')) = (registers u)[7 := sp s] \<and>
      ram (final (ret u op' a' b')) = ram u"
    if "wf_cpu u" "sp u = sp s - 1" "ram_read u (sp u) = Inr (pc s + 2)" for u
    using that by (simp add: ret_in_range) (simp add: wf_cpu_def pc_def sp_def)
  have indep: "pc (final (ret (u\<lparr>registers := rs\<rparr>) op' a' b')) = pc (final (ret u op' a' b')) \<and>
      registers (final (ret (u\<lparr>registers := rs\<rparr>) op' a' b')) = rs[7 := sp s]"
    if "wf_cpu u" "sp u = sp s - 1" "ram_read u (sp u) = Inr (pc s + 2)"
      and "length rs = 8" "rs ! 7 = sp u" for u rs
  proof -
    have "wf_cpu (u\<lparr>registers := rs\<rparr>)" "sp (u\<lparr>registers := rs\<rparr>) = sp s - 1"
      "ram_read (u\<lparr>registers := rs\<rparr>) (sp (u\<lparr>registers := rs\<rparr>)) = Inr (pc s + 2)"
      using that by (simp_all add: wf_cpu_def sp_def ram_read_def)
    then show ?thesis
      using returns [of "u\<lparr>registers := rs\<rparr>"] returns [OF that(1-3)] by simp
  qed
  have after: "\<forall>u. wf_cpu u \<and> sp u = sp t \<and> ram_read u (sp u) = Inr (pc s + 2) \<longrightarrow>
        (ret u op' a' b' = Inr (final (ret u op' a' b')) \<and>
         pc (final (ret u op' a' b')) = pc s + 2 \<and> sp (final (ret u op' a' b')) = sp s \<and>
         registers (final (ret u op' a' b')) = (registers u)[7 := sp s] \<and>
         ram (final (ret u op' a' b')) = ram u \<and>
         (\<forall>rs. length rs = 8 \<and> rs ! 7 = sp u \<longrightarrow>
            pc (final (ret (u\<lparr>registers := rs\<rparr>) op' a' b')) = pc (final (ret u op' a' b')) \<and>
            registers (final (ret (u\<lparr>registers := rs\<rparr>) op' a' b')) = rs[7 := sp s]))"
  proof (intro allI impI)
    fix u
    assume "wf_cpu u \<and> sp u = sp t \<and> ram_read u (sp u) = Inr (pc s + 2)"
    then have u: "wf_cpu u" "sp u = sp s - 1" "ram_read u (sp u) = Inr (pc s + 2)"
      using spt by auto
    show "ret u op' a' b' = Inr (final (ret u op' a' b')) \<and>
         pc (final (ret u op' a' b')) = pc s + 2 \<and> sp (final (ret u op' a' b')) = sp s \<and>
         registers (final (ret u op' a' b')) = (registers u)[7 := sp s] \<and>
         ram (final (ret u op' a' b')) = ram u \<and>
         (\<forall>rs. length rs = 8 \<and> rs ! 7 = sp u \<longrightarrow>
            pc (final (ret (u\<lparr>registers := rs\<rparr>) op' a' b')) = pc (final (ret u op' a' b')) \<and>
            registers (final (ret (u\<lparr>registers := rs\<rparr>) op' a' b')) = rs[7 := sp s])"
      using returns [OF u] indep [OF u] by blast
  qed
  show ?thesis
    unfolding Let_def call final_simps using spt top pct regst after by blast
qed

theorem call_ret_roundtrip_witness:
  "call (pc_set 20 cpu_init) CALL 7 0 = Inr (final (call (pc_set 20 cpu_init) CALL 7 0)) \<and>
   pc (final (call (pc_set 20 cpu_init) CALL 7 0)) = 243 \<and>
   pc (final (ret (final (call (pc_set 20 cpu_init) CALL 7 0)) RET 0 0)) = 22 \<and>
   sp (final (ret (final (call (pc_set 20 cpu_init) CALL 7 0)) RET 0 0)) = 244"
proof -
  define s where "s = pc_set 20 cpu_init"
  define t where "t = final (call s CALL 7 0)"
  have s: "wf_cpu s" "sp s = 244" "pc s = 20"
    by (simp_all add: s_def wf_cpu_init pc_pc_set) (simp add: sp_def pc_set_def cpu_init_def)
  have r: "(0::int) \<le> 7" "(7::int) < 8" "- 256 \<le> sp s - 1" "sp s - 1 < 256"
    by (simp_all add: s)
  note roundtrip = call_ret_roundtrip [OF s(1) r, of CALL 0 RET 0 0, unfolded Let_def,
      folded t_def]
  from roundtrip have called: "call s CALL 7 0 = Inr t" and spt: "sp t = sp s - 1"
    and top: "ram_read t (sp t) = Inr (pc s + 2)" and pct: "pc t = registers t ! nat 7"
    and regst: "registers t = (registers s)[7 := sp s - 1]"
    by blast+
  have wft: "wf_cpu t"
    using call_wf [of s CALL 7 0] s(1) by (simp add: t_def)
  from roundtrip wft top have "pc (final (ret t RET 0 0)) = pc s + 2 \<and> sp (final (ret t RET 0 0)) = sp s"
    by blast
  moreover have "pc t = 243"
    using s(1) by (simp add: pct regst s(2) wf_cpu_def)
  ultimately show ?thesis
    unfolding s_def [symmetric] t_def [symmetric] using called by (simp add: s)
qed

subsection \<open>Register indices\<close>

lemma registers_outside:
  assumes "wf_cpu s" "8 \<le> i \<or> i < - 8"
  shows "getitem (registers s) i = Inl IndexError" "setitem (registers s) i v = Inl IndexError"
  using assms by (simp_all add: getitem_outside setitem_outside wf_cpu_def)

lemma binop_outside:
  assumes "wf_cpu s" "8 \<le> i \<or> i < - 8"
  shows "binop f s i b = Inl (IndexError, s)" "binop f s a i = Inl (IndexError, s)"
  using registers_outside [OF assms]
  by (auto simp add: binop_def split: sum.splits dest: getitem_error setitem_error)

lemma compare_outside:
  assumes "wf_cpu s" "8 \<le> i \<or> i < - 8"
  shows "compare s i b = Inl (IndexError, s)" "compare s a i = Inl (IndexError, s)"
  using registers_outside [OF assms]
  by (auto simp add: compare_def split: sum.splits dest: getitem_error)

lemma push_outside:
  assumes "wf_cpu s" "8 \<le> i \<or> i < - 8"
  shows "push s op i b = Inl (IndexError, s\<lparr>registers := (registers s)[7 := sp s - 1]\<rparr>)"
proof -
  from assms have "getitem (registers (sp_set (sp s - 1) s)) i = Inl IndexError"
    by (intro registers_outside) simp_all
  then show ?thesis
    by (simp add: push_def) (simp add: sp_set_def)
qed

text \<open>
  The memory \<open>CALL\<close> leaves behind when it is about to raise on its register operand:
  the return address is already in the cell below the old stack pointer, if there is one.
\<close>

lemma call_outside:
  assumes "wf_cpu s" "8 \<le> i \<or> i < - 8"
  shows "call s op i b =
     Inl (IndexError,
       s\<lparr>registers := (registers s)[7 := sp s - 1],
         ram := (if 0 \<le> sp s - 1 \<and> sp s - 1 < 256
                   then (ram s)[nat (sp s - 1) := pc s + 2]
                 else if - 256 \<le> sp s - 1 \<and> sp s - 1 < 0
                   then (ram s)[nat (256 + (sp s - 1)) := pc s + 2]
                 else ram s)\<rparr>)"
proof -
  define s1 where "s1 = sp_set (sp s - 1) s"
  have s1: "registers s1 = (registers s)[7 := sp s - 1]" "sp s1 = sp s - 1" "pc s1 = pc s"
    "ram s1 = ram s" "length (ram s1) = 256" "wf_cpu s1"
    "s1 = s\<lparr>registers := (registers s)[7 := sp s - 1]\<rparr>"
    using assms(1) by (simp_all add: s1_def sp_sp_set) (simp_all add: sp_set_def wf_cpu_def)
  have len: "length (ram s) = 256"
    using assms(1) by (simp add: wf_cpu_def)
  have out: "getitem (registers s1) i = Inl IndexError"
    using s1(6) assms(2) by (rule registers_outside)
  consider (inside) "0 \<le> sp s - 1 \<and> sp s - 1 < 256"
    | (negative) "- 256 \<le> sp s - 1 \<and> sp s - 1 < 0"
    | (outside) "256 \<le> sp s - 1 \<or> sp s - 1 < - 256"
    by linarith
  then show ?thesis
  proof cases
    case inside
    then have "ram_write s1 (pc s1 + 2) (sp s1) =
        Inr (s1\<lparr>ram := (ram s)[nat (sp s - 1) := pc s + 2]\<rparr>)"
      by (simp add: ram_write_def setitem_in_range s1(2-4) len)
    with inside show ?thesis
      by (simp add: call_def s1_def [symmetric] out) (simp add: s1(7))
  next
    case negative
    then have "ram_write s1 (pc s1 + 2) (sp s1) =
        Inr (s1\<lparr>ram := (ram s)[nat (256 + (sp s - 1)) := pc s + 2]\<rparr>)"
      by (simp add: ram_write_def setitem_negative s1(2-4) len)
    with negative show ?thesis
      by (simp add: call_def s1_def [symmetric] out) (simp add: s1(7))
  next
    case outside
    then have "ram_write s1 (pc s1 + 2) (sp s1) = Inl (IndexError, s1)"
      by (simp add: ram_write_def setitem_outside s1(2-4) len)
    with outside show ?thesis
      by (simp add: call_def s1_def [symmetric]) (auto simp add: s1(7))
  qed
qed

text \<open>
  Claim C4, as the code has it. No handler checks a register index: each access is a
  subscript of the register list, which accepts \<open>-8..7\<close> (a negative index \<open>j\<close> denotes
  register \<open>8 + j\<close>) and raises \<^verbatim>\<open>IndexError\<close>, which names no index, outside of it. With
  an operand \<open>i\<close> of 8 or more, or below \<open>-8\<close>: \<open>LDI\<close>, \<open>PRN\<close>, \<open>POP\<close>, \<open>JMP\<close>, \<open>ADD\<close>,
  \<open>MUL\<close> and \<open>CMP\<close> raise and leave the machine exactly as it was; \<open>JEQ\<close> and \<open>JNE\<close> do
  so when their jump is taken, and otherwise return with the program counter advanced by
  2 and nothing else changed, without reading the register. \<open>PUSH\<close> raises after it has
  decremented the stack pointer, with nothing else changed. \<open>CALL\<close> raises after it has
  decremented the stack pointer and, when the decremented stack pointer is a valid memory
  subscript (\<open>-256..255\<close>), after it has written the return address \<open>PC + 2\<close> to the memory
  cell it designates; it changes no other register, no other memory cell and not the
  program counter.
\<close>

theorem register_index_outside:
  assumes "wf_cpu s" "8 \<le> i \<or> i < - 8"
  shows "ldi s op i v = Inl (IndexError, s) \<and> prn s op i b = Inl (IndexError, s) \<and>
     pop s op i b = Inl (IndexError, s) \<and> jmp s op i b = Inl (IndexError, s) \<and>
     alu s ADD i b = Inl (IndexError, s) \<and> alu s ADD a i = Inl (IndexError, s) \<and>
     alu s MUL i b = Inl (IndexError, s) \<and> alu s MUL a i = Inl (IndexError, s) \<and>
     alu s CMP i b = Inl (IndexError, s) \<and> alu s CMP a i = Inl (IndexError, s) \<and>
     jeq s op i b = (if fl s = EQUAL then Inl (IndexError, s) else Inr (pc_set (pc s + 2) s)) \<and>
     jne s op i b = (if fl s \<noteq> EQUAL then Inl (IndexError, s) else Inr (pc_set (pc s + 2) s)) \<and>
     (fl s \<noteq> EQUAL \<longrightarrow>
        pc (final (jeq s op i b)) = pc s + 2 \<and> registers (final (jeq s op i b)) = registers s \<and>
        ram (final (jeq s op i b)) = ram s \<and> fl (final (jeq s op i b)) = fl s) \<and>
     (fl s = EQUAL \<longrightarrow>
        pc (final (jne s op i b)) = pc s + 2 \<and> registers (final (jne s op i b)) = registers s \<and>
        ram (final (jne s op i b)) = ram s \<and> fl (final (jne s op i b)) = fl s) \<and>
     push s op i b = Inl (IndexError, sp_set (sp s - 1) s) \<and>
     registers (final (push s op i b)) = (registers s)[7 := sp s - 1] \<and>
     int_registers (final (push s op i b)) = int_registers s \<and>
     ram (final (push s op i b)) = ram s \<and>
     stdout (final (push s op i b)) = stdout s \<and>
     call s op i b = Inl (IndexError, final (call s op i b)) \<and>
     registers (final (call s op i b)) = (registers s)[7 := sp s - 1] \<and>
     int_registers (final (call s op i b)) = int_registers s \<and>
     ram (final (call s op i b)) =
       (if 0 \<le> sp s - 1 \<and> sp s - 1 < 256 then (ram s)[nat (sp s - 1) := pc s + 2]
        else if - 256 \<le> sp s - 1 \<and> sp s - 1 < 0
          then (ram s)[nat (256 + (sp s - 1)) := pc s + 2]
        else ram s) \<and>
     stdout (final (call s op i b)) = stdout s \<and>
     (\<forall>j. - 8 \<le> j \<and> j < 0 \<longrightarrow>
        ldi s op j v =
          Inr (pc_set (pc s + 3) (s\<lparr>registers := (registers s)[nat (8 + j) := v]\<rparr>)) \<and>
        registers (final (ldi s op j v)) = (registers s)[nat (8 + j) := v] \<and>
        pc (final (ldi s op j v)) = pc s + 3)"
proof -
  note out = registers_outside [OF assms]
  have "ldi s op i v = Inl (IndexError, s)"
    by (simp add: ldi_def out)
  moreover have "prn s op i b = Inl (IndexError, s)"
    by (simp add: prn_def out)
  moreover have "pop s op i b = Inl (IndexError, s)"
    by (auto simp add: pop_def ram_read_def out split: sum.splits dest: getitem_error)
  moreover have "jmp s op i b = Inl (IndexError, s)"
    by (simp add: jmp_def out)
  moreover have "alu s ADD i b = Inl (IndexError, s)" "alu s ADD a i = Inl (IndexError, s)"
    "alu s MUL i b = Inl (IndexError, s)" "alu s MUL a i = Inl (IndexError, s)"
    "alu s CMP i b = Inl (IndexError, s)" "alu s CMP a i = Inl (IndexError, s)"
    by (simp_all add: alu_def opcode_defs binop_outside [OF assms] compare_outside [OF assms])
  moreover have
    "jeq s op i b = (if fl s = EQUAL then Inl (IndexError, s) else Inr (pc_set (pc s + 2) s))"
    "jne s op i b = (if fl s \<noteq> EQUAL then Inl (IndexError, s) else Inr (pc_set (pc s + 2) s))"
    by (simp_all add: jeq_def jne_def out)
  moreover have "pc (final (jeq s op i b)) = pc s + 2 \<and>
      registers (final (jeq s op i b)) = registers s \<and>
      ram (final (jeq s op i b)) = ram s \<and> fl (final (jeq s op i b)) = fl s"
    if "fl s \<noteq> EQUAL"
    using that assms(1) by (simp add: jeq_def pc_pc_set) (simp add: pc_set_def)
  moreover have "pc (final (jne s op i b)) = pc s + 2 \<and>
      registers (final (jne s op i b)) = registers s \<and>
      ram (final (jne s op i b)) = ram s \<and> fl (final (jne s op i b)) = fl s"
    if "fl s = EQUAL"
    using that assms(1) by (simp add: jne_def pc_pc_set) (simp add: pc_set_def)
  moreover have "push s op i b = Inl (IndexError, sp_set (sp s - 1) s)"
    "registers (final (push s op i b)) = (registers s)[7 := sp s - 1]"
    "int_registers (final (push s op i b)) = int_registers s"
    "ram (final (push s op i b)) = ram s"
    "stdout (final (push s op i b)) = stdout s"
    by (simp_all add: push_outside [OF assms]) (simp add: sp_set_def)
  moreover have "call s op i b = Inl (IndexError, final (call s op i b))"
    "registers (final (call s op i b)) = (registers s)[7 := sp s - 1]"
    "int_registers (final (call s op i b)) = int_registers s"
    "ram (final (call s op i b)) =
       (if 0 \<le> sp s - 1 \<and> sp s - 1 < 256 then (ram s)[nat (sp s - 1) := pc s + 2]
        else if - 256 \<le> sp s - 1 \<and> sp s - 1 < 0
          then (ram s)[nat (256 + (sp s - 1)) := pc s + 2]
        else ram s)"
    "stdout (final (call s op i b)) = stdout s"
    by (simp_all add: call_outside [OF assms])
  moreover have "ldi s op j v =
      Inr (pc_set (pc s + 3) (s\<lparr>registers := (registers s)[nat (8 + j) := v]\<rparr>)) \<and>
      registers (final (ldi s op j v)) = (registers s)[nat (8 + j) := v] \<and>
      pc (final (ldi s op j v)) = pc s + 3"
    if "- 8 \<le> j \<and> j < 0" for j
    using that assms(1)
    by (simp add: ldi_def setitem_negative wf_cpu_def) (simp add: pc_set_def pc_def)
  ultimately show ?thesis
    by blast
qed

theorem register_index_outside_witness:
  "ldi cpu_init LDI 8 1 = Inl (IndexError, cpu_init) \<and>
   alu cpu_init ADD 0 8 = Inl (IndexError, cpu_init) \<and>
   push cpu_init PUSH 8 0 = Inl (IndexError, sp_set (sp cpu_init - 1) cpu_init) \<and>
   ldi cpu_init LDI (- 1) 1 =
     Inr (pc_set (pc cpu_init + 3) (cpu_init\<lparr>registers := (registers cpu_init)[7 := 1]\<rparr>)) \<and>
   pc (final (jeq cpu_init JEQ 8 0)) = 2 \<and>
   registers (final (call cpu_init CALL 8 0)) = (registers cpu_init)[7 := 243] \<and>
   ram (final (call cpu_init CALL 8 0)) = (ram cpu_init)[243 := 2]"
proof -
  have i: "(8::int) \<le> 8 \<or> (8::int) < - 8"
    by simp
  have fresh: "sp cpu_init = 244" "pc cpu_init = 0" "fl cpu_init \<noteq> EQUAL"
    by (simp_all add: sp_def pc_def fl_def cpu_init_def opcode_defs)
  note at = register_index_outside [OF wf_cpu_init i]
  have "ldi cpu_init LDI 8 1 = Inl (IndexError, cpu_init)"
    using at [of LDI 1 0 0] by blast
  moreover have "alu cpu_init ADD 0 8 = Inl (IndexError, cpu_init)"
    using at [of LDI 1 0 0] by blast
  moreover have "push cpu_init PUSH 8 0 = Inl (IndexError, sp_set (sp cpu_init - 1) cpu_init)"
    using at [of PUSH 1 0 0] by blast
  moreover have "ldi cpu_init LDI (- 1) 1 =
     Inr (pc_set (pc cpu_init + 3) (cpu_init\<lparr>registers := (registers cpu_init)[nat (8 + - 1) := 1]\<rparr>))"
    using at [of LDI 1 0 0] by simp
  moreover have "pc (final (jeq cpu_init JEQ 8 0)) = pc cpu_init + 2"
    using at [of JEQ 1 0 0] fresh(3) by blast
  moreover have "registers (final (call cpu_init CALL 8 0)) =
      (registers cpu_init)[7 := sp cpu_init - 1]"
    using at [of CALL 1 0 0] by blast
  moreover have "ram (final (call cpu_init CALL 8 0)) =
       (if 0 \<le> sp cpu_init - 1 \<and> sp cpu_init - 1 < 256
          then (ram cpu_init)[nat (sp cpu_init - 1) := pc cpu_init + 2]
        else if - 256 \<le> sp cpu_init - 1 \<and> sp cpu_init - 1 < 0
          then (ram cpu_init)[nat (256 + (sp cpu_init - 1)) := pc cpu_init + 2]
        else ram cpu_init)"
    using at [of CALL 1 0 0] by blast
  ultimately show ?thesis
    by (simp add: fresh(1,2))
qed

text \<open>
  \<^verbatim>\<open>PUSH\<close> with operand 8 raises only after it has decremented the stack pointer: the
  program \<^verbatim>\<open>PUSH 8\<close> ends with \<^verbatim>\<open>IndexError\<close> and 243 in register 7. \<^verbatim>\<open>CALL\<close> with operand
  8 on a fresh machine raises with 243 in register 7 and the return address 2 in memory
  cell 243, which held 0. \<^verbatim>\<open>JEQ\<close> with operand 8 on a fresh machine does not raise at all.
\<close>

theorem register_index_counterexample:
  "map_option (map_sum (\<lambda>(e, s). (e, registers s)) registers)
     (run (final (load cpu_init [69, 8]))) =
     Some (Inl (IndexError, [0, 0, 0, 0, 0, 0, 0, 243])) \<and>
   registers cpu_init = [0, 0, 0, 0, 0, 0, 0, 244] \<and>
   jeq cpu_init JEQ 8 0 = Inr (pc_set 2 cpu_init) \<and>
   map_sum (\<lambda>(e, s). (e, registers s, ram s ! 243)) registers (call cpu_init CALL 8 0) =
     Inl (IndexError, [0, 0, 0, 0, 0, 0, 0, 243], 2) \<and>
   ram cpu_init ! 243 = 0"
proof -
  have "map_option (map_sum (\<lambda>(e, s). (e, registers s)) registers)
     (run (final (load cpu_init [69, 8]))) =
     Some (Inl (IndexError, [0, 0, 0, 0, 0, 0, 0, 243]))"
    apply (simp add: load_def cpu_init_def setitem_def subscript_def)
    apply (simp add: run.simps cycle_def ram_read_def ram_write_def getitem_def subscript_def
        pc_def ir_def ir_set_def pc_set_def sp_def sp_set_def dispatch_def opcode_defs
        push_def setitem_def)
    apply (simp add: eval_nat_numeral)
    done
  moreover have "registers cpu_init = [0, 0, 0, 0, 0, 0, 0, 244]"
    by (simp add: cpu_init_def eval_nat_numeral)
  moreover have "jeq cpu_init JEQ 8 0 = Inr (pc_set 2 cpu_init)"
    by (simp add: jeq_def fl_def pc_def cpu_init_def opcode_defs)
  moreover have
    "map_sum (\<lambda>(e, s). (e, registers s, ram s ! 243)) registers (call cpu_init CALL 8 0) =
     Inl (IndexError, [0, 0, 0, 0, 0, 0, 0, 243], 2)"
    apply (simp add: call_def cpu_init_def ram_write_def setitem_def getitem_def subscript_def
        pc_def pc_set_def sp_def sp_set_def)
    apply (simp add: eval_nat_numeral)
    done
  moreover have "ram cpu_init ! 243 = 0"
    by (simp add: cpu_init_def)
  ultimately show ?thesis
    by blast
qed

end
